theory Spec2Isabelle
  imports Complex_Main "HOL-Library.AList"
begin

section \<open>zod-conf: binding schema fields to environment keys and merging sources\<close>

text \<open>
  The development follows the multi-loader version of \<^verbatim>\<open>values/define.ts\<close>
  (\<^verbatim>\<open>resolveEnvValue\<close>, \<^verbatim>\<open>loadValue\<close>, \<^verbatim>\<open>load\<close>, \<^verbatim>\<open>safeLoad\<close>),
  \<^verbatim>\<open>values/env.ts\<close> (\<^verbatim>\<open>env\<close>, \<^verbatim>\<open>wrap\<close>) and \<^verbatim>\<open>values/env-metadata.ts\<close>
  (\<^verbatim>\<open>_envMetadata\<close>).

  JavaScript objects are modelled by the list of their own properties, read with
  \<^const>\<open>map_of\<close> and written with \<^const>\<open>AList.update\<close>. A property read of the
  source (\<^verbatim>\<open>env[envKey]\<close>, \<^verbatim>\<open>loader.values[key]\<close>) also finds the members that an
  object inherits from \<^verbatim>\<open>Object.prototype\<close> or \<^verbatim>\<open>Array.prototype\<close>; these are not
  part of the model, so a name that is not an own property reads as \<^verbatim>\<open>undefined\<close>
  here. The properties below speak of own properties, or of what a source yields, and
  say nothing about a key that is absent. Strings are lists of 8-bit code units.
\<close>

subsection \<open>JavaScript values\<close>

text \<open>
  A Number is NaN, an infinity, or a finite binary64 value given by its sign
  (\<open>True\<close> for negative, so that \<open>-0\<close> is \<open>Finite True 0\<close>) and its magnitude.
\<close>

datatype jsnum = NaN | Infinity bool | Finite bool rat

datatype jsval =
    VUndefined
  | VNull
  | VBool bool
  | VNumber jsnum
  | VString string
  | VObject "(string \<times> jsval) list"
  | VArray "jsval list"

text \<open>\<^verbatim>\<open>isNaN(n)\<close> and \<^verbatim>\<open>Number.isInteger(n)\<close> on Numbers.\<close>

fun isNaN :: "jsnum \<Rightarrow> bool" where
  "isNaN NaN = True"
| "isNaN (Infinity neg) = False"
| "isNaN (Finite neg q) = False"

fun Number_isInteger :: "jsnum \<Rightarrow> bool" where
  "Number_isInteger NaN = False"
| "Number_isInteger (Infinity neg) = False"
| "Number_isInteger (Finite neg q) = (of_int \<lfloor>q\<rfloor> = q)"

subsection \<open>\<^verbatim>\<open>Number(string)\<close>: the StringToNumber conversion\<close>

text \<open>
  The StringNumericLiteral grammar of ECMAScript: surrounding white space is dropped, the
  empty string is \<open>0\<close>, then either a binary, octal or hexadecimal integer literal, or a
  signed decimal literal (\<^verbatim>\<open>Infinity\<close>, digits with an optional fraction and exponent).
  Anything else is \<open>NaN\<close>. The mathematical value is rounded to the nearest binary64 value,
  ties to even.
\<close>

function bit_length :: "int \<Rightarrow> int" where
  "bit_length n = (if n \<le> 0 then 0 else 1 + bit_length (n div 2))"
  by pat_completeness auto
termination
  by (relation "measure nat") auto

definition pow2 :: "int \<Rightarrow> rat" where
  "pow2 k = (if 0 \<le> k then 2 ^ nat k else 1 / 2 ^ nat (- k))"

definition pow10 :: "int \<Rightarrow> rat" where
  "pow10 k = (if 0 \<le> k then 10 ^ nat k else 1 / 10 ^ nat (- k))"

text \<open>\<open>ilog2 q\<close> is \<open>\<lfloor>log\<^sub>2 q\<rfloor>\<close> for a positive rational \<open>q\<close>.\<close>

definition ilog2 :: "rat \<Rightarrow> int" where
  "ilog2 q = (let (a, b) = quotient_of q;
                  k = bit_length a - bit_length b
              in if pow2 k \<le> q then k else k - 1)"

definition round_half_even :: "rat \<Rightarrow> int" where
  "round_half_even q =
     (let f = \<lfloor>q\<rfloor>; r = q - of_int f
      in if r < 1 / 2 then f else if 1 / 2 < r then f + 1
         else if even f then f else f + 1)"

text \<open>
  Rounding a magnitude \<open>q \<ge> 0\<close> to binary64: 53 significant bits, exponents from
  \<open>-1022\<close> (below that the spacing stays \<open>2\<^sup>-\<^sup>1\<^sup>0\<^sup>7\<^sup>4\<close>), overflow to infinity
  from \<open>2\<^sup>1\<^sup>0\<^sup>2\<^sup>4\<close> on.
\<close>

definition round_binary64 :: "bool \<Rightarrow> rat \<Rightarrow> jsnum" where
  "round_binary64 neg q =
     (if q = 0 then Finite neg 0
      else let e = max (ilog2 q) (- 1022);
               ulp = pow2 (e - 52);
               r = of_int (round_half_even (q / ulp)) * ulp
           in if pow2 1024 \<le> r then Infinity neg else Finite neg r)"

text \<open>
  Tab, line feed, vertical tab, form feed, carriage return, space, no-break space: the
  white space of ECMAScript among the code units below 256. The white space beyond
  (U+FEFF, U+2028, U+2029 and the space separators of Unicode) is not a character of
  an 8-bit string.
\<close>

definition StrWhiteSpaceChar :: "char \<Rightarrow> bool" where
  "StrWhiteSpaceChar c = ((of_char c :: int) \<in> set [9, 10, 11, 12, 13, 32, 160])"

definition trim :: "string \<Rightarrow> string" where
  "trim s = rev (dropWhile StrWhiteSpaceChar (rev (dropWhile StrWhiteSpaceChar s)))"

definition is_digit :: "int \<Rightarrow> char \<Rightarrow> bool" where
  "is_digit base c =
     (let n = (of_char c :: int)
      in (48 \<le> n \<and> n < 48 + min base 10) \<or>
         (base = 16 \<and> ((97 \<le> n \<and> n \<le> 102) \<or> (65 \<le> n \<and> n \<le> 70))))"

definition digit_value :: "char \<Rightarrow> int" where
  "digit_value c =
     (let n = (of_char c :: int)
      in if 97 \<le> n then n - 87 else if 65 \<le> n then n - 55 else n - 48)"

definition digits_value :: "int \<Rightarrow> string \<Rightarrow> int" where
  "digits_value base ds = foldl (\<lambda>n c. base * n + digit_value c) 0 ds"

definition SignedInteger :: "string \<Rightarrow> int option" where
  "SignedInteger s =
     (let (neg, ds) = (case s of
                         c # t \<Rightarrow> if c = CHR ''-'' then (True, t)
                                  else if c = CHR ''+'' then (False, t) else (False, s)
                       | [] \<Rightarrow> (False, s))
      in if ds \<noteq> [] \<and> list_all (is_digit 10) ds
         then Some (if neg then - digits_value 10 ds else digits_value 10 ds)
         else None)"

definition StrUnsignedDecimalLiteral :: "string \<Rightarrow> rat option" where
  "StrUnsignedDecimalLiteral s =
     (let ip = takeWhile (is_digit 10) s;
          r1 = dropWhile (is_digit 10) s;
          (fp, r2) = (case r1 of
                        c # t \<Rightarrow> if c = CHR ''.''
                                 then (takeWhile (is_digit 10) t, dropWhile (is_digit 10) t)
                                 else ([], r1)
                      | [] \<Rightarrow> ([], r1));
          ex = (case r2 of
                  [] \<Rightarrow> Some 0
                | c # t \<Rightarrow> if c = CHR ''e'' \<or> c = CHR ''E'' then SignedInteger t else None)
      in if ip = [] \<and> fp = [] then None
         else (case ex of
                 None \<Rightarrow> None
               | Some k \<Rightarrow>
                   Some (of_int (digits_value 10 (ip @ fp)) * pow10 (k - int (length fp)))))"

definition NonDecimalIntegerLiteral :: "string \<Rightarrow> rat option" where
  "NonDecimalIntegerLiteral s =
     (case s of
        c0 # c1 # ds \<Rightarrow>
          (let base = (if c1 = CHR ''x'' \<or> c1 = CHR ''X'' then 16
                       else if c1 = CHR ''o'' \<or> c1 = CHR ''O'' then 8
                       else if c1 = CHR ''b'' \<or> c1 = CHR ''B'' then 2 else 0)
           in if c0 = CHR ''0'' \<and> base \<noteq> 0 \<and> ds \<noteq> [] \<and> list_all (is_digit base) ds
              then Some (of_int (digits_value base ds)) else None)
      | _ \<Rightarrow> None)"

definition StrDecimalLiteral :: "string \<Rightarrow> jsnum" where
  "StrDecimalLiteral s =
     (let (neg, u) = (case s of
                        c # t \<Rightarrow> if c = CHR ''-'' then (True, t)
                                 else if c = CHR ''+'' then (False, t) else (False, s)
                      | [] \<Rightarrow> (False, s))
      in if u = ''Infinity'' then Infinity neg
         else (case StrUnsignedDecimalLiteral u of
                 None \<Rightarrow> NaN
               | Some q \<Rightarrow> round_binary64 neg q))"

definition StringToNumber :: "string \<Rightarrow> jsnum" where
  "StringToNumber s =
     (let t = trim s
      in if t = [] then Finite False 0
         else (case NonDecimalIntegerLiteral t of
                 Some q \<Rightarrow> round_binary64 False q
               | None \<Rightarrow> StrDecimalLiteral t))"

text \<open>
  \<^verbatim>\<open>Number(v)\<close> for \<^verbatim>\<open>v: string | undefined\<close>, the type of an entry of \<^verbatim>\<open>Env\<close>:
  \<^verbatim>\<open>Number(undefined)\<close> is \<open>NaN\<close>.
\<close>

definition js_Number :: "string option \<Rightarrow> jsnum" where
  "js_Number v = (case v of None \<Rightarrow> NaN | Some s \<Rightarrow> StringToNumber s)"

text \<open>Truthiness of a \<^verbatim>\<open>string | undefined\<close>, and the entry as a value.\<close>

definition truthy :: "string option \<Rightarrow> bool" where
  "truthy v = (case v of None \<Rightarrow> False | Some s \<Rightarrow> s \<noteq> [])"

definition of_entry :: "string option \<Rightarrow> jsval" where
  "of_entry v = (case v of None \<Rightarrow> VUndefined | Some s \<Rightarrow> VString s)"

subsection \<open>Schema nodes and the annotation store\<close>

text \<open>
  What the resolver reads of a schema node: its identity (the key of the
  \<^verbatim>\<open>WeakMap\<close>), \<^verbatim>\<open>_def.innerType\<close>, \<^verbatim>\<open>_def.schema\<close>, whether it is a
  \<^verbatim>\<open>ZodObject\<close>, and then its \<^verbatim>\<open>shape\<close>.
  \<^item> \<open>ZodType i inner sub\<close> is a schema object of identity \<open>i\<close> with
    \<^verbatim>\<open>_def.innerType = inner\<close> and \<^verbatim>\<open>_def.schema = sub\<close> (absent when \<open>None\<close>);
  \<^item> \<open>ZodObject i shape\<close> is an object schema;
  \<^item> \<open>Proxy i target envKey envType\<close> is the \<^verbatim>\<open>new Proxy(schema, {get ...})\<close> that
    \<^verbatim>\<open>wrap(schema, envKey, envType)\<close> creates: an object of its own identity whose
    property reads go to the target.
\<close>

type_synonym ident = nat

text \<open>An entry of \<^verbatim>\<open>_envMetadata\<close>: \<^verbatim>\<open>{ key: string; type: string }\<close>, as the pair (key, type).\<close>

type_synonym annotation = "string \<times> string"

datatype schema =
    ZodType ident "schema option" "schema option"
  | ZodObject ident "(string \<times> schema) list"
  | Proxy ident schema string string

type_synonym ZodRawShape = "(string \<times> schema) list"

fun ident_of :: "schema \<Rightarrow> ident" where
  "ident_of (ZodType i inner sub) = i"
| "ident_of (ZodObject i shape) = i"
| "ident_of (Proxy i target envKey envType) = i"

fun def_innerType :: "schema \<Rightarrow> schema option" where
  "def_innerType (ZodType i inner sub) = inner"
| "def_innerType (ZodObject i shape) = None"
| "def_innerType (Proxy i target envKey envType) = def_innerType target"

fun def_schema :: "schema \<Rightarrow> schema option" where
  "def_schema (ZodType i inner sub) = sub"
| "def_schema (ZodObject i shape) = None"
| "def_schema (Proxy i target envKey envType) = def_schema target"

fun instanceof_ZodObject :: "schema \<Rightarrow> bool" where
  "instanceof_ZodObject (ZodType i inner sub) = False"
| "instanceof_ZodObject (ZodObject i shape) = True"
| "instanceof_ZodObject (Proxy i target envKey envType) = instanceof_ZodObject target"

fun shape_of :: "schema \<Rightarrow> ZodRawShape" where
  "shape_of (ZodType i inner sub) = []"
| "shape_of (ZodObject i shape) = shape"
| "shape_of (Proxy i target envKey envType) = shape_of target"

text \<open>
  The global state: \<^verbatim>\<open>_envMetadata\<close>, and the next unused object identity.
\<close>

record world =
  next_id :: ident
  envMetadata :: "ident \<rightharpoonup> annotation"

subsection \<open>The binding wrapper (\<^verbatim>\<open>values/env.ts\<close>)\<close>

text \<open>
  \<^verbatim>\<open>wrap(schema, envKey, envType)\<close> creates the proxy, a new object, and registers the
  metadata for the proxy:\<^verbatim>\<open>_envMetadata.set(proxied, { key: envKey, type: envType })\<close>.
\<close>

definition wrap :: "world \<Rightarrow> schema \<Rightarrow> string \<Rightarrow> string \<Rightarrow> schema \<times> world" where
  "wrap w schema envKey envType =
     (let proxied = Proxy (next_id w) schema envKey envType
      in (proxied,
          w\<lparr>next_id := next_id w + 1,
            envMetadata := (envMetadata w)(next_id w \<mapsto> (envKey, envType))\<rparr>))"

text \<open>
  The four constructors of \<^verbatim>\<open>env(key)\<close>: each builds a base schema of the validation
  library (\<^verbatim>\<open>string()\<close>, \<^verbatim>\<open>coerce.number()\<close>, \<^verbatim>\<open>coerce.boolean()\<close>,
  \<^verbatim>\<open>zenum(values)\<close>), a new object that wraps nothing, and wraps it with the type tag.
\<close>

datatype binding = BString | BNumber | BBoolean | BEnum

fun type_tag :: "binding \<Rightarrow> string" where
  "type_tag BString = ''string''"
| "type_tag BNumber = ''number''"
| "type_tag BBoolean = ''boolean''"
| "type_tag BEnum = ''enum''"

definition env :: "world \<Rightarrow> string \<Rightarrow> binding \<Rightarrow> schema \<times> world" where
  "env w key b =
     (let base = ZodType (next_id w) None None
      in wrap (w\<lparr>next_id := next_id w + 1\<rparr>) base key (type_tag b))"

text \<open>
  The chainable combinators. What the validation library builds for each is a parameter
  \<open>lib\<close>: given the combinator, the identity of the new object and the receiver, the new
  schema object.
\<close>

datatype combinator = Default | Optional | Nullable | Transform | Refine

type_synonym zodlib = "combinator \<Rightarrow> ident \<Rightarrow> schema \<Rightarrow> schema"

definition library_call :: "zodlib \<Rightarrow> world \<Rightarrow> schema \<Rightarrow> combinator \<Rightarrow> schema \<times> world" where
  "library_call lib w this c = (lib c (next_id w) this, w\<lparr>next_id := next_id w + 1\<rparr>)"

text \<open>
  A combinator called on a node. On a proxy the \<^verbatim>\<open>get\<close> trap answers with a function that
  calls the original method on the target (\<^verbatim>\<open>value.apply(target, args)\<close>) and, the result
  being a schema object (it has \<^verbatim>\<open>_def\<close>), returns
  \<^verbatim>\<open>wrap(result, envKey, envType)\<close>. On any other node it is the library's method.
\<close>

fun call :: "zodlib \<Rightarrow> world \<Rightarrow> schema \<Rightarrow> combinator \<Rightarrow> schema \<times> world" where
  "call lib w (Proxy i target envKey envType) c =
     (case library_call lib w target c of
        (result, w') \<Rightarrow> wrap w' result envKey envType)"
| "call lib w node c = library_call lib w node c"

fun chain :: "zodlib \<Rightarrow> schema \<times> world \<Rightarrow> combinator list \<Rightarrow> schema \<times> world" where
  "chain lib (node, w) [] = (node, w)"
| "chain lib (node, w) (c # cs) = chain lib (call lib w node c) cs"

text \<open>
  The library as the resolver's comments describe it: \<^verbatim>\<open>default\<close>, \<^verbatim>\<open>optional\<close> and
  \<^verbatim>\<open>nullable\<close> keep the receiver in \<^verbatim>\<open>_def.innerType\<close>, the effects (\<^verbatim>\<open>transform\<close>,
  \<^verbatim>\<open>refine\<close>) in \<^verbatim>\<open>_def.schema\<close>.
\<close>

fun zod :: zodlib where
  "zod Default i this = ZodType i (Some this) None"
| "zod Optional i this = ZodType i (Some this) None"
| "zod Nullable i this = ZodType i (Some this) None"
| "zod Transform i this = ZodType i None (Some this)"
| "zod Refine i this = ZodType i None (Some this)"

subsection \<open>The resolver (\<^verbatim>\<open>values/define.ts\<close>)\<close>

lemma def_innerType_size: "def_innerType s = Some t \<Longrightarrow> size t < size s"
  by (induction s) auto

lemma def_schema_size: "def_schema s = Some t \<Longrightarrow> size t < size s"
  by (induction s) auto

text \<open>
  The loop of \<^verbatim>\<open>resolveEnvValue\<close> that traverses wrapped schemas to find metadata: at the
  current node, \<^verbatim>\<open>_envMetadata.get(currentSchema)\<close>; if there is none, on to
  \<^verbatim>\<open>_def.innerType\<close>, else to \<^verbatim>\<open>_def.schema\<close>, else the chain ends with nothing found.
\<close>

function findMetadata :: "(ident \<rightharpoonup> annotation) \<Rightarrow> schema \<Rightarrow> annotation option" where
  "findMetadata M currentSchema =
     (case M (ident_of currentSchema) of
        Some metadata \<Rightarrow> Some metadata
      | None \<Rightarrow>
          (case def_innerType currentSchema of
             Some inner \<Rightarrow> findMetadata M inner
           | None \<Rightarrow>
               (case def_schema currentSchema of
                  Some sub \<Rightarrow> findMetadata M sub
                | None \<Rightarrow> None)))"
  by pat_completeness auto
termination
  by (relation "measure (\<lambda>(M, s). size s)")
     (auto simp: def_innerType_size def_schema_size)

declare findMetadata.simps [simp del]

type_synonym Env = "string \<rightharpoonup> string"

text \<open>
  \<^verbatim>\<open>resolveEnvValue(schema, env)\<close>. \<^verbatim>\<open>!envKey\<close> holds when nothing was found and when the
  key is the empty string.
\<close>

definition resolveEnvValue :: "(ident \<rightharpoonup> annotation) \<Rightarrow> schema \<Rightarrow> Env \<Rightarrow> jsval" where
  "resolveEnvValue M schema e =
     (case findMetadata M schema of
        None \<Rightarrow> VUndefined
      | Some (envKey, envType) \<Rightarrow>
          if envKey = [] then VUndefined
          else
            (let v = e envKey
             in if envType = ''string'' then of_entry v
                else if envType = ''number'' then
                  (if truthy v then VNumber (js_Number v) else VUndefined)
                else if envType = ''boolean'' then
                  (if v = Some ''true'' then VBool True
                   else if v = Some ''false'' then VBool False
                   else VUndefined)
                else if envType = ''enum'' then
                  (let numValue = js_Number v
                   in if truthy v \<and> \<not> isNaN numValue \<and> Number_isInteger numValue
                      then VNumber numValue
                      else of_entry v)
                else VUndefined))"

text \<open>
  A \<^verbatim>\<open>Loader\<close> is \<^verbatim>\<open>{ env }\<close> or \<^verbatim>\<open>{ values }\<close>. The values of a loader are an object
  (\<^verbatim>\<open>Record<string, unknown>\<close>) or, after narrowing to a nested value, any value with
  \<^verbatim>\<open>typeof nested === 'object'\<close>: an object or an array.
\<close>

datatype container = ObjectOf "(string \<times> jsval) list" | ArrayOf "jsval list"

datatype Loader = EnvLoader Env | ValuesLoader container

text \<open>
  An array index as a property key: the canonical decimal string of a natural number.
\<close>

definition array_index :: "string \<Rightarrow> nat option" where
  "array_index k =
     (if k = ''0'' then Some 0
      else if k \<noteq> [] \<and> hd k \<noteq> CHR ''0'' \<and> list_all (is_digit 10) k
      then Some (nat (digits_value 10 k))
      else None)"

text \<open>\<^verbatim>\<open>loader.values[key]\<close>: a missing property reads as \<^verbatim>\<open>undefined\<close>.\<close>

fun get_prop :: "container \<Rightarrow> string \<Rightarrow> jsval" where
  "get_prop (ObjectOf props) k = (case map_of props k of Some v \<Rightarrow> v | None \<Rightarrow> VUndefined)"
| "get_prop (ArrayOf xs) k =
     (if k = ''length'' then VNumber (Finite False (of_nat (length xs)))
      else (case array_index k of
              Some i \<Rightarrow> if i < length xs then xs ! i else VUndefined
            | None \<Rightarrow> VUndefined))"

text \<open>\<^verbatim>\<open>nested && typeof nested === 'object' ? nested : {}\<close>\<close>

fun narrow :: "jsval \<Rightarrow> container" where
  "narrow (VObject props) = ObjectOf props"
| "narrow (VArray xs) = ArrayOf xs"
| "narrow nested = ObjectOf []"

text \<open>The \<^verbatim>\<open>subLoaders\<close> of a nested object field.\<close>

definition subLoaders :: "string \<Rightarrow> Loader list \<Rightarrow> Loader list" where
  "subLoaders key loaders =
     map (\<lambda>loader. case loader of
                     ValuesLoader vals \<Rightarrow> ValuesLoader (narrow (get_prop vals key))
                   | EnvLoader e \<Rightarrow> loader)
         loaders"

text \<open>One round of the loop over the loaders of a leaf field.\<close>

definition assign_from ::
  "(ident \<rightharpoonup> annotation) \<Rightarrow> string \<Rightarrow> schema \<Rightarrow> (string \<times> jsval) list \<Rightarrow> Loader
     \<Rightarrow> (string \<times> jsval) list" where
  "assign_from M key schema input loader =
     (case loader of
        ValuesLoader vals \<Rightarrow>
          (let v = get_prop vals key
           in if v \<noteq> VUndefined then AList.update key v input else input)
      | EnvLoader e \<Rightarrow>
          (let v = resolveEnvValue M schema e
           in if v \<noteq> VUndefined then AList.update key v input else input))"

lemma shape_of_size: "size_list (size_prod (\<lambda>x. 0) size) (shape_of s) < size s"
  by (induction s) auto

text \<open>
  \<^verbatim>\<open>loadValue(shape, loaders)\<close>: the loop over the keys of the shape, with \<open>input\<close> the
  object built so far.
\<close>

function loadValue_loop ::
  "(ident \<rightharpoonup> annotation) \<Rightarrow> ZodRawShape \<Rightarrow> Loader list \<Rightarrow> (string \<times> jsval) list
     \<Rightarrow> (string \<times> jsval) list" where
  "loadValue_loop M [] loaders input = input"
| "loadValue_loop M ((key, schema) # rest) loaders input =
     loadValue_loop M rest loaders
       (if instanceof_ZodObject schema
        then AList.update key
               (VObject (loadValue_loop M (shape_of schema) (subLoaders key loaders) [])) input
        else foldl (assign_from M key schema) input loaders)"
  by pat_completeness auto
termination
  by (relation "measure (\<lambda>(M, shape, loaders, input). size_list (size_prod (\<lambda>x. 0) size) shape)")
     (auto simp: shape_of_size less_Suc_eq trans_less_add1)

definition loadValue ::
  "(ident \<rightharpoonup> annotation) \<Rightarrow> ZodRawShape \<Rightarrow> Loader list \<Rightarrow> (string \<times> jsval) list" where
  "loadValue M shape loaders = loadValue_loop M shape loaders []"

subsection \<open>Notions used to state the properties\<close>

text \<open>
  The value a source produces for a leaf field: \<^verbatim>\<open>loader.values[key]\<close> for a values
  loader, \<^verbatim>\<open>this.resolveEnvValue(schema, loader.env)\<close> for an env loader.
\<close>

definition produced :: "(ident \<rightharpoonup> annotation) \<Rightarrow> string \<Rightarrow> schema \<Rightarrow> Loader \<Rightarrow> jsval" where
  "produced M key schema loader =
     (case loader of
        ValuesLoader vals \<Rightarrow> get_prop vals key
      | EnvLoader e \<Rightarrow> resolveEnvValue M schema e)"

text \<open>The last value of a list that is not \<^verbatim>\<open>undefined\<close>, if there is one.\<close>

fun last_defined :: "jsval list \<Rightarrow> jsval option" where
  "last_defined [] = None"
| "last_defined (v # vs) =
     (case last_defined vs of
        Some u \<Rightarrow> Some u
      | None \<Rightarrow> if v \<noteq> VUndefined then Some v else None)"

text \<open>
  A shape is a JavaScript object: its keys are distinct, at every level of nesting.
\<close>

function wf_shape :: "ZodRawShape \<Rightarrow> bool" where
  "wf_shape [] = True"
| "wf_shape ((key, schema) # rest) =
     (key \<notin> fst ` set rest \<and>
      (if instanceof_ZodObject schema then wf_shape (shape_of schema) else True) \<and>
      wf_shape rest)"
  by pat_completeness auto
termination
  by (relation "measure (size_list (size_prod (\<lambda>x. 0) size))")
     (auto simp: shape_of_size less_Suc_eq trans_less_add1)

text \<open>
  Following a path of field names: the nested shape it leads to, the value of the merged
  tree there, and the loaders the recursion has there.
\<close>

fun shape_at :: "ZodRawShape \<Rightarrow> string list \<Rightarrow> ZodRawShape option" where
  "shape_at shape [] = Some shape"
| "shape_at shape (k # path) =
     (case map_of shape k of
        Some s \<Rightarrow> if instanceof_ZodObject s then shape_at (shape_of s) path else None
      | None \<Rightarrow> None)"

fun tree_at :: "(string \<times> jsval) list \<Rightarrow> string list \<Rightarrow> jsval" where
  "tree_at tree [] = VObject tree"
| "tree_at tree (k # path) =
     (case map_of tree k of
        Some (VObject sub) \<Rightarrow> tree_at sub path
      | _ \<Rightarrow> VUndefined)"

fun loaders_at :: "Loader list \<Rightarrow> string list \<Rightarrow> Loader list" where
  "loaders_at loaders [] = loaders"
| "loaders_at loaders (k # path) = loaders_at (subLoaders k loaders) path"

text \<open>
  The narrowing rule in the words of the specification, stated apart from \<^const>\<open>narrow\<close>
  and \<^const>\<open>get_prop\<close>: the own property of a values tree under a field name, if it has
  one, and which values are containers.
\<close>

fun own_property :: "container \<Rightarrow> string \<Rightarrow> jsval option" where
  "own_property (ObjectOf props) k = map_of props k"
| "own_property (ArrayOf xs) k =
     (if k = ''length'' then Some (VNumber (Finite False (of_nat (length xs))))
      else (case array_index k of
              Some i \<Rightarrow> if i < length xs then Some (xs ! i) else None
            | None \<Rightarrow> None))"

fun is_container :: "jsval \<Rightarrow> bool" where
  "is_container VUndefined = False"
| "is_container VNull = False"
| "is_container (VBool b) = False"
| "is_container (VNumber n) = False"
| "is_container (VString s) = False"
| "is_container (VObject props) = True"
| "is_container (VArray xs) = True"

text \<open>
  Every field of the shape that is a nested object schema holds an object in the tree,
  and so on inside it.
\<close>

function groups_present :: "ZodRawShape \<Rightarrow> (string \<times> jsval) list \<Rightarrow> bool" where
  "groups_present [] tree = True"
| "groups_present ((key, schema) # rest) tree =
     ((if instanceof_ZodObject schema
       then (case map_of tree key of
               Some (VObject sub) \<Rightarrow> groups_present (shape_of schema) sub
             | _ \<Rightarrow> False)
       else True) \<and>
      groups_present rest tree)"
  by pat_completeness auto
termination
  by (relation "measure (\<lambda>(shape, tree). size_list (size_prod (\<lambda>x. 0) size) shape)")
     (auto simp: shape_of_size less_Suc_eq trans_less_add1)

subsection \<open>\<^verbatim>\<open>load\<close> and \<^verbatim>\<open>safeLoad\<close>\<close>

text \<open>
  The result of \<^verbatim>\<open>safeParse\<close> is \<^verbatim>\<open>{ success: true, data }\<close> or
  \<^verbatim>\<open>{ success: false, error }\<close>. A call either returns or throws. Of the
  \<^verbatim>\<open>ZodConfSchema\<close> the methods use the shape and \<^verbatim>\<open>this.schema.safeParse\<close>, the
  validation library's function, a parameter here.
\<close>

datatype ('d, 'e) SafeParseResult = Success 'd | Failure 'e

datatype ('a, 'e) completion = Returns 'a | Throws 'e

record ('d, 'e) ZodConfSchema =
  conf_shape :: ZodRawShape
  conf_safeParse :: "jsval \<Rightarrow> ('d, 'e) SafeParseResult"

definition safeLoad ::
  "(ident \<rightharpoonup> annotation) \<Rightarrow> ('d, 'e) ZodConfSchema \<Rightarrow> Loader list
     \<Rightarrow> (('d, 'e) SafeParseResult, 'e) completion" where
  "safeLoad M this loaders =
     (let v = loadValue M (conf_shape this) loaders
      in Returns (conf_safeParse this (VObject v)))"

definition load ::
  "(ident \<rightharpoonup> annotation) \<Rightarrow> ('d, 'e) ZodConfSchema \<Rightarrow> Loader list \<Rightarrow> ('d, 'e) completion" where
  "load M this loaders =
     (case safeLoad M this loaders of
        Throws x \<Rightarrow> Throws x
      | Returns result \<Rightarrow>
          (case result of
             Failure err \<Rightarrow> Throws err
           | Success d \<Rightarrow> Returns d))"

subsection \<open>Calls of the library as steps on the global state\<close>

text \<open>
  \<^verbatim>\<open>env(key).string()\<close> and its siblings and the combinators called on a node allocate
  objects and write \<^verbatim>\<open>_envMetadata\<close>; \<^verbatim>\<open>loadValue\<close> only reads it
  (\<^verbatim>\<open>_envMetadata.get\<close>) and builds its result in a new object.
\<close>

datatype api_call =
    Env_call string binding
  | Method_call schema combinator
  | LoadValue_call ZodRawShape "Loader list"

fun api_step :: "zodlib \<Rightarrow> world \<Rightarrow> api_call \<Rightarrow> world" where
  "api_step lib w (Env_call key b) = snd (env w key b)"
| "api_step lib w (Method_call node c) = snd (call lib w node c)"
| "api_step lib w (LoadValue_call shape loaders) = w"

text \<open>The identities of the objects of a schema.\<close>

fun idents :: "schema \<Rightarrow> ident set" where
  "idents (ZodType i inner sub) =
     insert i ((case inner of Some s \<Rightarrow> idents s | None \<Rightarrow> {}) \<union>
               (case sub of Some s \<Rightarrow> idents s | None \<Rightarrow> {}))"
| "idents (ZodObject i shape) = insert i (\<Union>f \<in> set shape. idents (snd f))"
| "idents (Proxy i target envKey envType) = insert i (idents target)"

subsection \<open>Examples\<close>

definition world0 :: world where
  "world0 = \<lparr>next_id = 0, envMetadata = Map.empty\<rparr>"

text \<open>
  \<^verbatim>\<open>{ server: object({ host: env('H').string() }) }\<close>, and the state once these
  three objects exist.
\<close>

definition host_world :: world where
  "host_world = (snd (env world0 ''H'' BString))\<lparr>next_id := 3\<rparr>"

definition server_shape :: ZodRawShape where
  "server_shape = [(''server'', ZodObject 2 [(''host'', fst (env world0 ''H'' BString))])]"

section \<open>Properties\<close>

subsection \<open>Auxiliary facts\<close>

lemma findMetadata_registered:
  "M (ident_of s) = Some a \<Longrightarrow> findMetadata M s = Some a"
  by (subst findMetadata.simps) simp

lemma wrap_registers:
  "wrap w s K T = (node, w') \<Longrightarrow> envMetadata w' (ident_of node) = Some (K, T) \<and> (\<exists>i t. node = Proxy i t K T)"
  by (auto simp: wrap_def Let_def)

lemma env_registers:
  "env w K b = (node, w') \<Longrightarrow> envMetadata w' (ident_of node) = Some (K, type_tag b) \<and> (\<exists>i t. node = Proxy i t K (type_tag b))"
  unfolding env_def Let_def by (rule wrap_registers)

lemma call_registers:
  assumes "node = Proxy i t K T" and "call lib w node c = (node', w')"
  shows "envMetadata w' (ident_of node') = Some (K, T) \<and> (\<exists>i t. node' = Proxy i t K T)"
  using assms by (auto split: prod.splits dest: wrap_registers)

lemma chain_registers:
  "\<exists>i t. node = Proxy i t K T \<Longrightarrow> envMetadata w (ident_of node) = Some (K, T) \<Longrightarrow>
   chain lib (node, w) cs = (node', w') \<Longrightarrow>
   envMetadata w' (ident_of node') = Some (K, T) \<and> (\<exists>i t. node' = Proxy i t K T)"
proof (induction cs arbitrary: node w)
  case Nil
  then show ?case by simp
next
  case (Cons c cs)
  obtain n1 w1 where c1: "call lib w node c = (n1, w1)" by (cases "call lib w node c")
  from Cons.prems(1) obtain i t where "node = Proxy i t K T" by blast
  from call_registers [OF this c1]
  have "envMetadata w1 (ident_of n1) = Some (K, T)" and "\<exists>i t. n1 = Proxy i t K T" by blast+
  moreover from Cons.prems(3) c1 have "chain lib (n1, w1) cs = (node', w')" by simp
  ultimately show ?case using Cons.IH by blast
qed

lemma assign_from_produced:
  "assign_from M key schema input loader =
     (if produced M key schema loader \<noteq> VUndefined
      then AList.update key (produced M key schema loader) input else input)"
  by (cases loader) (simp_all add: assign_from_def produced_def Let_def)

lemma map_of_assign_loop_other:
  "k \<noteq> key \<Longrightarrow> map_of (foldl (assign_from M key schema) input loaders) k = map_of input k"
  by (induction loaders arbitrary: input) (simp_all add: assign_from_produced update_conv)

lemma map_of_assign_loop:
  "map_of (foldl (assign_from M key schema) input loaders) key =
     (case last_defined (map (produced M key schema) loaders) of
        Some v \<Rightarrow> Some v
      | None \<Rightarrow> map_of input key)"
  by (induction loaders arbitrary: input)
     (auto simp: assign_from_produced update_conv split: option.splits)

lemma last_defined_None:
  "last_defined vs = None \<longleftrightarrow> (\<forall>v \<in> set vs. v = VUndefined)"
  by (induction vs) (auto split: option.splits)

lemma last_defined_index:
  "i < length vs \<Longrightarrow> vs ! i \<noteq> VUndefined \<Longrightarrow>
   (\<forall>j. i < j \<and> j < length vs \<longrightarrow> vs ! j = VUndefined) \<Longrightarrow>
   last_defined vs = Some (vs ! i)"
proof (induction vs arbitrary: i)
  case Nil
  then show ?case by simp
next
  case (Cons v vs)
  show ?case
  proof (cases i)
    case 0
    have "\<forall>u \<in> set vs. u = VUndefined"
    proof
      fix u assume "u \<in> set vs"
      then obtain j where "j < length vs" "vs ! j = u" by (auto simp: in_set_conv_nth)
      with Cons.prems(3) [rule_format, of "Suc j"] 0 show "u = VUndefined" by simp
    qed
    then have "last_defined vs = None" by (simp add: last_defined_None)
    with 0 Cons.prems(2) show ?thesis by simp
  next
    case (Suc n)
    have "last_defined vs = Some (vs ! n)"
    proof (rule Cons.IH)
      show "n < length vs" using Cons.prems(1) Suc by simp
      show "vs ! n \<noteq> VUndefined" using Cons.prems(2) Suc by simp
      show "\<forall>j. n < j \<and> j < length vs \<longrightarrow> vs ! j = VUndefined"
      proof (intro allI impI)
        fix j assume "n < j \<and> j < length vs"
        with Cons.prems(3) [rule_format, of "Suc j"] Suc show "vs ! j = VUndefined" by simp
      qed
    qed
    with Suc show ?thesis by simp
  qed
qed

lemma loadValue_loop_other:
  "k \<notin> fst ` set shape \<Longrightarrow> map_of (loadValue_loop M shape loaders input) k = map_of input k"
proof (induction shape arbitrary: input)
  case Nil
  then show ?case by simp
next
  case (Cons field rest)
  obtain key schema where f: "field = (key, schema)" by (cases field)
  with Cons.prems have "k \<noteq> key" and "k \<notin> fst ` set rest" by auto
  then show ?case
    using Cons.IH f by (simp add: update_conv map_of_assign_loop_other)
qed

lemma loadValue_loop_leaf:
  "distinct (map fst shape) \<Longrightarrow> (key, schema) \<in> set shape \<Longrightarrow> \<not> instanceof_ZodObject schema \<Longrightarrow>
   map_of (loadValue_loop M shape loaders input) key =
     (case last_defined (map (produced M key schema) loaders) of
        Some v \<Rightarrow> Some v
      | None \<Rightarrow> map_of input key)"
proof (induction shape arbitrary: input)
  case Nil
  then show ?case by simp
next
  case (Cons field rest)
  obtain k s where f: "field = (k, s)" by (cases field)
  show ?case
  proof (cases "(key, schema) = (k, s)")
    case True
    with Cons.prems(1) f have "key \<notin> fst ` set rest" by auto
    with True f Cons.prems(3) show ?thesis
      by (auto simp: loadValue_loop_other map_of_assign_loop)
  next
    case False
    with Cons.prems f have m: "(key, schema) \<in> set rest" and d: "distinct (map fst rest)" by auto
    from m Cons.prems(1) f have "key \<noteq> k" by force
    then show ?thesis
      using Cons.IH [OF d m Cons.prems(3)] f
      by (auto simp: update_conv map_of_assign_loop_other split: option.splits)
  qed
qed

lemma loadValue_loop_nested:
  "distinct (map fst shape) \<Longrightarrow> (key, schema) \<in> set shape \<Longrightarrow> instanceof_ZodObject schema \<Longrightarrow>
   map_of (loadValue_loop M shape loaders input) key =
     Some (VObject (loadValue M (shape_of schema) (subLoaders key loaders)))"
proof (induction shape arbitrary: input)
  case Nil
  then show ?case by simp
next
  case (Cons field rest)
  obtain k s where f: "field = (k, s)" by (cases field)
  show ?case
  proof (cases "(key, schema) = (k, s)")
    case True
    with Cons.prems(1) f have "key \<notin> fst ` set rest" by auto
    with True f Cons.prems(3) show ?thesis
      by (simp add: loadValue_loop_other update_conv loadValue_def)
  next
    case False
    with Cons.prems f have m: "(key, schema) \<in> set rest" and d: "distinct (map fst rest)" by auto
    show ?thesis using Cons.IH [OF d m Cons.prems(3)] f by simp
  qed
qed

lemma leaf_value:
  "distinct (map fst shape) \<Longrightarrow> (key, schema) \<in> set shape \<Longrightarrow> \<not> instanceof_ZodObject schema \<Longrightarrow>
   map_of (loadValue M shape loaders) key = last_defined (map (produced M key schema) loaders)"
  by (simp add: loadValue_def loadValue_loop_leaf split: option.splits)

lemma wf_shape_distinct: "wf_shape shape \<Longrightarrow> distinct (map fst shape)"
  by (induction shape) force+

lemma wf_shape_nested:
  "wf_shape shape \<Longrightarrow> (key, schema) \<in> set shape \<Longrightarrow> instanceof_ZodObject schema \<Longrightarrow>
   wf_shape (shape_of schema)"
  by (induction shape) (auto split: if_splits)

lemma nested_at:
  "wf_shape shape \<Longrightarrow> shape_at shape path = Some sub \<Longrightarrow>
   tree_at (loadValue M shape loaders) path = VObject (loadValue M sub (loaders_at loaders path))"
proof (induction path arbitrary: shape loaders)
  case Nil
  then show ?case by simp
next
  case (Cons k path)
  from Cons.prems(2) obtain s where s: "map_of shape k = Some s" "instanceof_ZodObject s"
    "shape_at (shape_of s) path = Some sub"
    by (auto split: option.splits if_splits)
  then have m: "(k, s) \<in> set shape" by (simp add: map_of_SomeD)
  have "map_of (loadValue M shape loaders) k =
          Some (VObject (loadValue M (shape_of s) (subLoaders k loaders)))"
    unfolding loadValue_def [of M shape]
    by (rule loadValue_loop_nested [OF wf_shape_distinct [OF Cons.prems(1)] m s(2)])
  moreover have "tree_at (loadValue M (shape_of s) (subLoaders k loaders)) path =
      VObject (loadValue M sub (loaders_at (subLoaders k loaders) path))"
    by (rule Cons.IH [OF wf_shape_nested [OF Cons.prems(1) m s(2)] s(3)])
  ultimately show ?case by simp
qed

lemma groups_present_loop:
  "wf_shape shape \<Longrightarrow> groups_present shape (loadValue_loop M shape loaders input)"
proof (induction M shape loaders input rule: loadValue_loop.induct)
  case (1 M loaders input)
  then show ?case by simp
next
  case (2 M key schema rest loaders input)
  let ?input' = "if instanceof_ZodObject schema
        then AList.update key
               (VObject (loadValue_loop M (shape_of schema) (subLoaders key loaders) [])) input
        else foldl (assign_from M key schema) input loaders"
  from "2.prems" have k: "key \<notin> fst ` set rest" and r: "wf_shape rest" by auto
  have rest: "groups_present rest (loadValue_loop M rest loaders ?input')"
    using "2.IH"(2) r by simp
  show ?case
  proof (cases "instanceof_ZodObject schema")
    case True
    with "2.prems" have "wf_shape (shape_of schema)" by simp
    with "2.IH"(1) True
    have "groups_present (shape_of schema)
            (loadValue_loop M (shape_of schema) (subLoaders key loaders) [])" by simp
    moreover have "map_of (loadValue_loop M rest loaders ?input') key = map_of ?input' key"
      by (rule loadValue_loop_other [OF k])
    ultimately show ?thesis using True rest by (simp add: update_conv)
  next
    case False
    then show ?thesis using rest by simp
  qed
qed


lemma last_defined_snoc:
  "v \<noteq> VUndefined \<Longrightarrow> last_defined (vs @ [v]) = Some v"
  by (induction vs) simp_all

lemma StringToNumber_empty: "StringToNumber [] = Finite False 0"
  by (simp add: StringToNumber_def trim_def)

lemma finite_integral:
  "\<not> isNaN n \<and> Number_isInteger n \<longleftrightarrow> (\<exists>neg q. n = Finite neg q \<and> q \<in> \<int>)"
  by (cases n) (auto simp: Ints_def)

lemma loaders_at_length: "length (loaders_at loaders path) = length loaders"
  by (induction path arbitrary: loaders) (simp_all add: subLoaders_def)

lemma def_innerType_idents: "def_innerType s = Some t \<Longrightarrow> idents t \<subseteq> idents s"
  by (induction s) auto

lemma def_schema_idents: "def_schema s = Some t \<Longrightarrow> idents t \<subseteq> idents s"
  by (induction s) auto

lemma shape_of_idents: "(k, t) \<in> set (shape_of s) \<Longrightarrow> idents t \<subseteq> idents s"
  by (induction s) force+

lemma findMetadata_inner:
  "M (ident_of s) = None \<Longrightarrow> def_innerType s = Some t \<Longrightarrow> findMetadata M s = findMetadata M t"
  by (subst findMetadata.simps) simp

lemma findMetadata_sub:
  "M (ident_of s) = None \<Longrightarrow> def_innerType s = None \<Longrightarrow> def_schema s = Some t \<Longrightarrow>
   findMetadata M s = findMetadata M t"
  by (subst findMetadata.simps) simp

lemma findMetadata_end:
  "M (ident_of s) = None \<Longrightarrow> def_innerType s = None \<Longrightarrow> def_schema s = None \<Longrightarrow>
   findMetadata M s = None"
  by (subst findMetadata.simps) simp

lemma findMetadata_agree:
  "\<forall>i \<in> idents s. M i = M' i \<Longrightarrow> findMetadata M s = findMetadata M' s"
proof (induction M s rule: findMetadata.induct)
  case (1 M s)
  have i: "ident_of s \<in> idents s" by (cases s) simp_all
  with "1.prems" have eq: "M' (ident_of s) = M (ident_of s)" by simp
  show ?case
  proof (cases "M (ident_of s)")
    case (Some a)
    with eq have "M' (ident_of s) = Some a" by simp
    with Some show ?thesis by (simp add: findMetadata_registered)
  next
    case None
    with eq have None': "M' (ident_of s) = None" by simp
    show ?thesis
    proof (cases "def_innerType s")
      case (Some t)
      with "1.prems" def_innerType_idents [OF Some] have "\<forall>i \<in> idents t. M i = M' i" by blast
      from "1.IH"(2) [OF None Some this] show ?thesis
        by (simp add: findMetadata_inner [of M s, OF None Some] findMetadata_inner [of M' s, OF None' Some])
    next
      case inner: None
      show ?thesis
      proof (cases "def_schema s")
        case (Some t)
        with "1.prems" def_schema_idents [OF Some] have "\<forall>i \<in> idents t. M i = M' i" by blast
        from "1.IH"(1) [OF None inner Some this] show ?thesis
          by (simp add: findMetadata_sub [of M s, OF None inner Some] findMetadata_sub [of M' s, OF None' inner Some])
      next
        case sub: None
        show ?thesis
          by (simp add: findMetadata_end [of M s, OF None inner sub] findMetadata_end [of M' s, OF None' inner sub])
      qed
    qed
  qed
qed

lemma assign_from_agree:
  "\<forall>i \<in> idents schema. M i = M' i \<Longrightarrow>
   assign_from M key schema = assign_from M' key schema"
proof (intro ext)
  fix input loader
  assume a: "\<forall>i \<in> idents schema. M i = M' i"
  have "resolveEnvValue M schema e = resolveEnvValue M' schema e" for e
    by (simp add: resolveEnvValue_def findMetadata_agree [OF a])
  then show "assign_from M key schema input loader = assign_from M' key schema input loader"
    by (simp add: assign_from_def split: Loader.splits)
qed

lemma loadValue_loop_agree:
  "\<forall>f \<in> set shape. \<forall>i \<in> idents (snd f). M i = M' i \<Longrightarrow>
   loadValue_loop M shape loaders input = loadValue_loop M' shape loaders input"
proof (induction M shape loaders input rule: loadValue_loop.induct)
  case (1 M loaders input)
  then show ?case by simp
next
  case (2 M key schema rest loaders input)
  from "2.prems" have s: "\<forall>i \<in> idents schema. M i = M' i"
    and r: "\<forall>f \<in> set rest. \<forall>i \<in> idents (snd f). M i = M' i" by auto
  show ?case
  proof (cases "instanceof_ZodObject schema")
    case True
    have "\<forall>f \<in> set (shape_of schema). \<forall>i \<in> idents (snd f). M i = M' i"
    proof (intro ballI)
      fix f i assume "f \<in> set (shape_of schema)" "i \<in> idents (snd f)"
      then have "i \<in> idents schema" using shape_of_idents [of "fst f" "snd f" schema] by auto
      with s show "M i = M' i" by blast
    qed
    from "2.IH"(1) [OF True this]
    have n: "loadValue_loop M (shape_of schema) (subLoaders key loaders) [] =
             loadValue_loop M' (shape_of schema) (subLoaders key loaders) []" .
    from "2.IH"(2) [OF r] True n show ?thesis by simp
  next
    case False
    from "2.IH"(2) [OF r] False assign_from_agree [OF s] show ?thesis by simp
  qed
qed

lemma api_step_frame:
  "next_id w \<le> next_id (api_step lib w c) \<and>
   (\<forall>i < next_id w. envMetadata (api_step lib w c) i = envMetadata w i)"
proof (cases c)
  case (Env_call key b)
  then show ?thesis by (simp add: env_def wrap_def Let_def)
next
  case (Method_call node comb)
  then show ?thesis
    by (cases node) (simp_all add: library_call_def wrap_def Let_def)
next
  case (LoadValue_call shape loaders)
  then show ?thesis by simp
qed

lemma api_run_frame:
  "next_id w \<le> next_id (foldl (api_step lib) w calls) \<and>
   (\<forall>i < next_id w. envMetadata (foldl (api_step lib) w calls) i = envMetadata w i)"
proof (induction calls arbitrary: w)
  case Nil
  then show ?case by simp
next
  case (Cons c calls)
  from api_step_frame [of w lib c] Cons.IH [of "api_step lib w c"]
  show ?case by force
qed

lemma loaders_at_snoc:
  "loaders_at loaders (path @ [key]) = subLoaders key (loaders_at loaders path)"
  by (induction path arbitrary: loaders) simp_all

lemma loaders_at_env:
  "i < length loaders \<Longrightarrow> loaders ! i = EnvLoader e \<Longrightarrow> loaders_at loaders path ! i = EnvLoader e"
proof (induction path arbitrary: loaders)
  case Nil
  then show ?case by simp
next
  case (Cons k path)
  have "i < length (subLoaders k loaders)" and "subLoaders k loaders ! i = EnvLoader e"
    using Cons.prems by (simp_all add: subLoaders_def)
  then show ?case using Cons.IH by simp
qed

lemma get_prop_own_property:
  "get_prop vals k = (case own_property vals k of Some v \<Rightarrow> v | None \<Rightarrow> VUndefined)"
  by (cases vals) (simp_all split: option.splits)

lemma subLoaders_values:
  "i < length loaders \<Longrightarrow> loaders ! i = ValuesLoader vals \<Longrightarrow>
   subLoaders key loaders ! i = ValuesLoader (narrow (get_prop vals key))"
  by (simp add: subLoaders_def)

lemma narrow_own_property:
  "(\<forall>props. own_property vals key = Some (VObject props) \<longrightarrow>
      narrow (get_prop vals key) = ObjectOf props) \<and>
   (\<forall>xs. own_property vals key = Some (VArray xs) \<longrightarrow>
      narrow (get_prop vals key) = ArrayOf xs) \<and>
   (own_property vals key = None \<longrightarrow> narrow (get_prop vals key) = ObjectOf []) \<and>
   (\<forall>v. own_property vals key = Some v \<and> \<not> is_container v \<longrightarrow>
      narrow (get_prop vals key) = ObjectOf [])"
proof (intro conjI allI impI)
  fix v assume "own_property vals key = Some v \<and> \<not> is_container v"
  then show "narrow (get_prop vals key) = ObjectOf []"
    by (cases v) (simp_all add: get_prop_own_property)
qed (simp_all add: get_prop_own_property)

subsection \<open>The claims\<close>

text \<open>
  C1. A node made by \<^verbatim>\<open>env(K)\<close> with type tag \<open>T\<close> and then taken through any finite
  chain of combinators (default, optional, nullable, transform, refine, in any order and
  number, whatever the validation library builds for them): the resolver's search for
  metadata, started at the outermost node, finds exactly \<open>(K, T)\<close>.
\<close>

theorem annotation_survives_chain:
  "findMetadata (envMetadata (snd (chain lib (env w K b) cs))) (fst (chain lib (env w K b) cs))
     = Some (K, type_tag b)"
proof -
  obtain n0 w0 where e: "env w K b = (n0, w0)" by (cases "env w K b")
  obtain n1 w1 where c: "chain lib (n0, w0) cs = (n1, w1)" by (cases "chain lib (n0, w0) cs")
  from env_registers [OF e] chain_registers [OF _ _ c]
  have "envMetadata w1 (ident_of n1) = Some (K, type_tag b)" by blast
  then show ?thesis using e c by (simp add: findMetadata_registered)
qed

text \<open>
  C2 as stated fails: for a number binding, a raw string that is present but not numeric
  is not dropped. \<^verbatim>\<open>value ? Number(value) : undefined\<close> yields \<^verbatim>\<open>NaN\<close>, which is
  not \<^verbatim>\<open>undefined\<close>, so the field is assigned \<^verbatim>\<open>NaN\<close>.
\<close>

theorem number_binding_nonnumeric_counterexample:
  "map_of (loadValue (envMetadata (snd (env world0 ''PORT'' BNumber)))
             [(''port'', fst (env world0 ''PORT'' BNumber))]
             [EnvLoader [''PORT'' \<mapsto> ''nope'']]) ''port''
     = Some (VNumber NaN)"
  by code_simp

text \<open>
  C2, amended. For every number binding with a non-empty key and every environment source,
  a raw string at the bound key that is present but not numeric resolves to the Number
  \<^verbatim>\<open>NaN\<close>: the value is not dropped but assigned to the field of the merged tree,
  overriding the earlier sources, and no error is raised.
\<close>

theorem number_binding_nonnumeric_is_NaN:
  assumes "findMetadata M schema = Some (K, ''number'')" and "K \<noteq> []"
    and "e K = Some raw" and "StringToNumber raw = NaN"
  shows "resolveEnvValue M schema e = VNumber NaN \<and>
         (distinct (map fst shape) \<and> (key, schema) \<in> set shape \<and> \<not> instanceof_ZodObject schema
            \<longrightarrow> map_of (loadValue M shape (loaders @ [EnvLoader e])) key = Some (VNumber NaN))"
proof -
  from assms(4) have "raw \<noteq> []" using StringToNumber_empty by auto
  with assms have r: "resolveEnvValue M schema e = VNumber NaN"
    by (simp add: resolveEnvValue_def truthy_def js_Number_def)
  have "map_of (loadValue M shape (loaders @ [EnvLoader e])) key = Some (VNumber NaN)"
    if "distinct (map fst shape)" "(key, schema) \<in> set shape" "\<not> instanceof_ZodObject schema"
    using leaf_value [OF that, of M "loaders @ [EnvLoader e]"] r
    by (simp add: last_defined_snoc produced_def)
  with r show ?thesis by blast
qed

theorem number_binding_nonnumeric_is_NaN_witness:
  "resolveEnvValue (envMetadata (snd (env world0 ''PORT'' BNumber)))
     (fst (env world0 ''PORT'' BNumber)) [''PORT'' \<mapsto> ''12abc''] = VNumber NaN \<and>
   map_of (loadValue (envMetadata (snd (env world0 ''PORT'' BNumber)))
             [(''port'', fst (env world0 ''PORT'' BNumber))]
             ([ValuesLoader (ObjectOf [(''port'', VNumber (Finite False 8000))])] @
              [EnvLoader [''PORT'' \<mapsto> ''12abc'']])) ''port''
     = Some (VNumber NaN)"
proof -
  let ?M = "envMetadata (snd (env world0 ''PORT'' BNumber))"
  let ?s = "fst (env world0 ''PORT'' BNumber)"
  have h1: "findMetadata ?M ?s = Some (''PORT'', ''number'')" by code_simp
  have h2: "''PORT'' \<noteq> []" by simp
  have h3: "[''PORT'' \<mapsto> ''12abc''] ''PORT'' = Some ''12abc''" by simp
  have h4: "StringToNumber ''12abc'' = NaN" by code_simp
  have h5: "distinct (map fst [(''port'', ?s)]) \<and> (''port'', ?s) \<in> set [(''port'', ?s)]
            \<and> \<not> instanceof_ZodObject ?s" by code_simp
  from number_binding_nonnumeric_is_NaN
         [where e = "[''PORT'' \<mapsto> ''12abc'']" and K = "''PORT''" and shape = "[(''port'', ?s)]"
            and key = "''port''", OF h1 h2 h3 h4] h5
  show ?thesis by blast
qed

text \<open>
  C3. For every leaf field and every list of sources, the field of the merged tree holds
  the value produced by the last source of the list that produces a defined value for it,
  whatever the earlier sources produce; if no source produces a defined value, the field
  is absent.
\<close>

theorem last_defining_source_wins:
  assumes "distinct (map fst shape)" and "(key, schema) \<in> set shape"
    and "\<not> instanceof_ZodObject schema"
  shows "((\<forall>l \<in> set loaders. produced M key schema l = VUndefined)
            \<longrightarrow> map_of (loadValue M shape loaders) key = None) \<and>
         (\<forall>i < length loaders.
            produced M key schema (loaders ! i) \<noteq> VUndefined \<and>
            (\<forall>j. i < j \<and> j < length loaders \<longrightarrow> produced M key schema (loaders ! j) = VUndefined)
            \<longrightarrow> map_of (loadValue M shape loaders) key = Some (produced M key schema (loaders ! i)))"
proof -
  let ?vs = "map (produced M key schema) loaders"
  have tree: "map_of (loadValue M shape loaders) key = last_defined ?vs"
    by (rule leaf_value [OF assms])
  have none: "map_of (loadValue M shape loaders) key = None"
    if "\<forall>l \<in> set loaders. produced M key schema l = VUndefined"
    using that by (simp add: tree last_defined_None)
  have some: "map_of (loadValue M shape loaders) key = Some (produced M key schema (loaders ! i))"
    if i: "i < length loaders" and d: "produced M key schema (loaders ! i) \<noteq> VUndefined"
      and later: "\<forall>j. i < j \<and> j < length loaders \<longrightarrow> produced M key schema (loaders ! j) = VUndefined"
    for i
  proof -
    have "last_defined ?vs = Some (?vs ! i)"
    proof (rule last_defined_index)
      show "i < length ?vs" using i by simp
      show "?vs ! i \<noteq> VUndefined" using i d by simp
      show "\<forall>j. i < j \<and> j < length ?vs \<longrightarrow> ?vs ! j = VUndefined" using later by simp
    qed
    with i show ?thesis by (simp add: tree)
  qed
  from none some show ?thesis by blast
qed

theorem last_defining_source_wins_witness:
  "map_of (loadValue (envMetadata (snd (env world0 ''PORT'' BNumber)))
             [(''port'', fst (env world0 ''PORT'' BNumber))]
             [ValuesLoader (ObjectOf [(''port'', VNumber (Finite False 8000))]),
              EnvLoader [''PORT'' \<mapsto> ''9000'']]) ''port''
     = Some (VNumber (Finite False 9000)) \<and>
   map_of (loadValue (envMetadata (snd (env world0 ''PORT'' BNumber)))
             [(''port'', fst (env world0 ''PORT'' BNumber))]
             [EnvLoader [''PORT'' \<mapsto> ''9000''],
              ValuesLoader (ObjectOf [(''port'', VNumber (Finite False 8000))])]) ''port''
     = Some (VNumber (Finite False 8000))"
proof -
  let ?M = "envMetadata (snd (env world0 ''PORT'' BNumber))"
  let ?s = "fst (env world0 ''PORT'' BNumber)"
  let ?V = "ValuesLoader (ObjectOf [(''port'', VNumber (Finite False 8000))])"
  let ?E = "EnvLoader [''PORT'' \<mapsto> ''9000'']"
  have h1: "distinct (map fst [(''port'', ?s)])" by simp
  have h2: "(''port'', ?s) \<in> set [(''port'', ?s)]" by simp
  have h3: "\<not> instanceof_ZodObject ?s" by code_simp
  have pE: "produced ?M ''port'' ?s ?E = VNumber (Finite False 9000)" by code_simp
  have pV: "produced ?M ''port'' ?s ?V = VNumber (Finite False 8000)" by code_simp
  from last_defining_source_wins [OF h1 h2 h3, where M = ?M and loaders = "[?V, ?E]"]
  have "\<forall>i < length [?V, ?E].
          produced ?M ''port'' ?s ([?V, ?E] ! i) \<noteq> VUndefined \<and>
          (\<forall>j. i < j \<and> j < length [?V, ?E] \<longrightarrow> produced ?M ''port'' ?s ([?V, ?E] ! j) = VUndefined)
          \<longrightarrow> map_of (loadValue ?M [(''port'', ?s)] [?V, ?E]) ''port''
                = Some (produced ?M ''port'' ?s ([?V, ?E] ! i))"
    by (rule conjunct2)
  from this [rule_format, of 1] pE
  have a: "map_of (loadValue ?M [(''port'', ?s)] [?V, ?E]) ''port'' = Some (VNumber (Finite False 9000))"
    by simp
  from last_defining_source_wins [OF h1 h2 h3, where M = ?M and loaders = "[?E, ?V]"]
  have "\<forall>i < length [?E, ?V].
          produced ?M ''port'' ?s ([?E, ?V] ! i) \<noteq> VUndefined \<and>
          (\<forall>j. i < j \<and> j < length [?E, ?V] \<longrightarrow> produced ?M ''port'' ?s ([?E, ?V] ! j) = VUndefined)
          \<longrightarrow> map_of (loadValue ?M [(''port'', ?s)] [?E, ?V]) ''port''
                = Some (produced ?M ''port'' ?s ([?E, ?V] ! i))"
    by (rule conjunct2)
  from this [rule_format, of 1] pV
  have b: "map_of (loadValue ?M [(''port'', ?s)] [?E, ?V]) ''port'' = Some (VNumber (Finite False 8000))"
    by simp
  from a b show ?thesis by (rule conjI)
qed




text \<open>
  C5 as stated fails for the binding whose external key is the empty string:
  \<^verbatim>\<open>if (!envKey) return undefined\<close> answers before the environment is read, so a
  present raw string is neither a number nor passed through.
\<close>

theorem enum_empty_key_counterexample:
  "findMetadata (envMetadata (snd (env world0 [] BEnum))) (fst (env world0 [] BEnum))
     = Some ([], ''enum'') \<and>
   resolveEnvValue (envMetadata (snd (env world0 [] BEnum))) (fst (env world0 [] BEnum))
     [[] \<mapsto> ''a''] = VUndefined"
  by code_simp

text \<open>
  C5, amended. For every enum binding with a non-empty external key and every present raw
  string \<open>v\<close>: \<open>v\<close> is resolved as a number exactly when it is non-empty and
  \<^verbatim>\<open>Number(v)\<close> is finite and integral; otherwise \<open>v\<close> is passed through unchanged as
  a string (so \<^verbatim>\<open>"3.14"\<close> resolves to the string).
\<close>

theorem enum_number_or_string:
  assumes "findMetadata M schema = Some (K, ''enum'')" and "K \<noteq> []" and "e K = Some v"
  shows "resolveEnvValue M schema e =
           (if v \<noteq> [] \<and> (\<exists>neg q. StringToNumber v = Finite neg q \<and> q \<in> \<int>)
            then VNumber (StringToNumber v) else VString v)"
  using assms finite_integral [of "StringToNumber v"]
  by (simp add: resolveEnvValue_def truthy_def js_Number_def of_entry_def Let_def)

theorem enum_number_or_string_witness:
  "resolveEnvValue (envMetadata (snd (env world0 ''LEVEL'' BEnum))) (fst (env world0 ''LEVEL'' BEnum))
     [''LEVEL'' \<mapsto> ''3.14''] = VString ''3.14'' \<and>
   resolveEnvValue (envMetadata (snd (env world0 ''LEVEL'' BEnum))) (fst (env world0 ''LEVEL'' BEnum))
     [''LEVEL'' \<mapsto> ''1''] = VNumber (Finite False 1)"
proof -
  let ?M = "envMetadata (snd (env world0 ''LEVEL'' BEnum))"
  let ?s = "fst (env world0 ''LEVEL'' BEnum)"
  have h1: "findMetadata ?M ?s = Some (''LEVEL'', ''enum'')" by code_simp
  have h2: "''LEVEL'' \<noteq> []" by simp
  have "\<not> (\<not> isNaN (StringToNumber ''3.14'') \<and> Number_isInteger (StringToNumber ''3.14''))"
    by code_simp
  then have n1: "\<not> (\<exists>neg q. StringToNumber ''3.14'' = Finite neg q \<and> q \<in> \<int>)"
    using finite_integral [of "StringToNumber ''3.14''"] by blast
  have n3: "StringToNumber ''1'' = Finite False 1" by code_simp
  have n2: "\<exists>neg q. StringToNumber ''1'' = Finite neg q \<and> q \<in> \<int>"
    unfolding n3 by (rule exI [of _ False], rule exI [of _ 1]) simp
  have a: "resolveEnvValue ?M ?s [''LEVEL'' \<mapsto> ''3.14''] = VString ''3.14''"
    using enum_number_or_string [where e = "[''LEVEL'' \<mapsto> ''3.14'']" and K = "''LEVEL''", OF h1 h2]
      n1 by simp
  have b: "resolveEnvValue ?M ?s [''LEVEL'' \<mapsto> ''1''] = VNumber (Finite False 1)"
    using enum_number_or_string [where e = "[''LEVEL'' \<mapsto> ''1'']" and K = "''LEVEL''", OF h1 h2]
      n2 n3 by simp
  from a b show ?thesis by (rule conjI)
qed



text \<open>
  C6. For every field whose schema is a nested shape, at every level of nesting (along any
  path of field names through nested shapes), the merged tree holds there the result of
  resolving the nested shape against the adjusted list of sources. The adjusted list has
  as many sources, in the same order; an environment source is the same at every level;
  and one level further down, under a field name, a values source is the sub-tree that
  its tree has under that name when this is an object or an array, and the empty object
  when the name is absent or its value is not a container (\<^verbatim>\<open>undefined\<close>, \<^verbatim>\<open>null\<close>,
  a boolean, a number or a string).
\<close>

theorem nested_shape_sources:
  assumes "wf_shape shape" and "shape_at shape path = Some sub"
  shows "tree_at (loadValue M shape loaders) path =
           VObject (loadValue M sub (loaders_at loaders path)) \<and>
         length (loaders_at loaders path) = length loaders \<and>
         (\<forall>i < length loaders.
            (\<forall>e. loaders ! i = EnvLoader e \<longrightarrow> loaders_at loaders path ! i = EnvLoader e) \<and>
            (\<forall>vals. loaders_at loaders path ! i = ValuesLoader vals \<longrightarrow>
               (\<forall>props. own_property vals key = Some (VObject props) \<longrightarrow>
                  loaders_at loaders (path @ [key]) ! i = ValuesLoader (ObjectOf props)) \<and>
               (\<forall>xs. own_property vals key = Some (VArray xs) \<longrightarrow>
                  loaders_at loaders (path @ [key]) ! i = ValuesLoader (ArrayOf xs)) \<and>
               (own_property vals key = None \<longrightarrow>
                  loaders_at loaders (path @ [key]) ! i = ValuesLoader (ObjectOf [])) \<and>
               (\<forall>v. own_property vals key = Some v \<and> \<not> is_container v \<longrightarrow>
                  loaders_at loaders (path @ [key]) ! i = ValuesLoader (ObjectOf []))))"
proof (intro conjI allI impI)
  show "tree_at (loadValue M shape loaders) path =
          VObject (loadValue M sub (loaders_at loaders path))"
    by (rule nested_at [OF assms])
  show "length (loaders_at loaders path) = length loaders"
    by (rule loaders_at_length)
next
  fix i e assume "i < length loaders" and "loaders ! i = EnvLoader e"
  then show "loaders_at loaders path ! i = EnvLoader e" by (rule loaders_at_env)
next
  fix i vals
  assume i: "i < length loaders" and v: "loaders_at loaders path ! i = ValuesLoader vals"
  from i have i': "i < length (loaders_at loaders path)" by (simp add: loaders_at_length)
  have step: "loaders_at loaders (path @ [key]) ! i = ValuesLoader (narrow (get_prop vals key))"
    unfolding loaders_at_snoc by (rule subLoaders_values [OF i' v])
  note rule = narrow_own_property [of vals key]
  {
    fix props assume "own_property vals key = Some (VObject props)"
    with rule step show "loaders_at loaders (path @ [key]) ! i = ValuesLoader (ObjectOf props)"
      by simp
  }
  {
    fix xs assume "own_property vals key = Some (VArray xs)"
    with rule step show "loaders_at loaders (path @ [key]) ! i = ValuesLoader (ArrayOf xs)"
      by simp
  }
  {
    assume "own_property vals key = None"
    with rule step show "loaders_at loaders (path @ [key]) ! i = ValuesLoader (ObjectOf [])"
      by simp
  }
  {
    fix u assume "own_property vals key = Some u \<and> \<not> is_container u"
    with rule step show "loaders_at loaders (path @ [key]) ! i = ValuesLoader (ObjectOf [])"
      by simp
  }
qed

theorem nested_shape_sources_witness:
  "tree_at (loadValue (envMetadata host_world) server_shape
              [ValuesLoader (ObjectOf [(''server'', VObject [(''host'', VString ''a'')])]),
               ValuesLoader (ObjectOf [(''server'', VString ''b'')]),
               ValuesLoader (ObjectOf [(''server'', VNull)]),
               ValuesLoader (ObjectOf [(''host'', VString ''c'')]),
               EnvLoader [''H'' \<mapsto> ''0.0.0.0'']])
           [''server'']
     = VObject [(''host'', VString ''0.0.0.0'')] \<and>
   loaders_at [ValuesLoader (ObjectOf [(''server'', VObject [(''host'', VString ''a'')])]),
               ValuesLoader (ObjectOf [(''server'', VString ''b'')]),
               ValuesLoader (ObjectOf [(''server'', VNull)]),
               ValuesLoader (ObjectOf [(''host'', VString ''c'')]),
               EnvLoader [''H'' \<mapsto> ''0.0.0.0'']] ([] @ [''server'']) ! 2
     = ValuesLoader (ObjectOf [])"
proof -
  let ?sub = "[(''host'', fst (env world0 ''H'' BString))]"
  let ?ls = "[ValuesLoader (ObjectOf [(''server'', VObject [(''host'', VString ''a'')])]),
              ValuesLoader (ObjectOf [(''server'', VString ''b'')]),
              ValuesLoader (ObjectOf [(''server'', VNull)]),
              ValuesLoader (ObjectOf [(''host'', VString ''c'')]),
              EnvLoader [''H'' \<mapsto> ''0.0.0.0'']]"
  let ?ls' = "[ValuesLoader (ObjectOf [(''host'', VString ''a'')]),
               ValuesLoader (ObjectOf []),
               ValuesLoader (ObjectOf []),
               ValuesLoader (ObjectOf []),
               EnvLoader [''H'' \<mapsto> ''0.0.0.0'']]"
  have h1: "wf_shape server_shape" by code_simp
  have h2: "shape_at server_shape [''server''] = Some ?sub" by code_simp
  have h3: "shape_at server_shape [] = Some server_shape" by simp
  have l: "loaders_at ?ls [''server''] = ?ls'" by (simp add: subLoaders_def)
  have v: "loadValue (envMetadata host_world) ?sub ?ls' = [(''host'', VString ''0.0.0.0'')]"
    by code_simp
  from nested_shape_sources [OF h1 h2, where M = "envMetadata host_world" and loaders = ?ls]
  have "tree_at (loadValue (envMetadata host_world) server_shape ?ls) [''server''] =
          VObject (loadValue (envMetadata host_world) ?sub (loaders_at ?ls [''server'']))"
    by (rule conjunct1)
  with l v have a: "tree_at (loadValue (envMetadata host_world) server_shape ?ls) [''server'']
                      = VObject [(''host'', VString ''0.0.0.0'')]" by simp
  have o: "own_property (ObjectOf [(''server'', VNull)]) ''server'' = Some VNull \<and> \<not> is_container VNull"
    by simp
  from nested_shape_sources [OF h1 h3, where M = "envMetadata host_world" and loaders = ?ls
                                and key = "''server''"]
  have "\<forall>i < length ?ls.
          (\<forall>e. ?ls ! i = EnvLoader e \<longrightarrow> loaders_at ?ls [] ! i = EnvLoader e) \<and>
          (\<forall>vals. loaders_at ?ls [] ! i = ValuesLoader vals \<longrightarrow>
             (\<forall>props. own_property vals ''server'' = Some (VObject props) \<longrightarrow>
                loaders_at ?ls ([] @ [''server'']) ! i = ValuesLoader (ObjectOf props)) \<and>
             (\<forall>xs. own_property vals ''server'' = Some (VArray xs) \<longrightarrow>
                loaders_at ?ls ([] @ [''server'']) ! i = ValuesLoader (ArrayOf xs)) \<and>
             (own_property vals ''server'' = None \<longrightarrow>
                loaders_at ?ls ([] @ [''server'']) ! i = ValuesLoader (ObjectOf [])) \<and>
             (\<forall>v. own_property vals ''server'' = Some v \<and> \<not> is_container v \<longrightarrow>
                loaders_at ?ls ([] @ [''server'']) ! i = ValuesLoader (ObjectOf [])))"
    by blast
  from this [rule_format, of 2] have
    "\<forall>vals. loaders_at ?ls [] ! 2 = ValuesLoader vals \<longrightarrow>
       (\<forall>v. own_property vals ''server'' = Some v \<and> \<not> is_container v \<longrightarrow>
          loaders_at ?ls ([] @ [''server'']) ! 2 = ValuesLoader (ObjectOf []))"
    by simp
  from this [rule_format, of "ObjectOf [(''server'', VNull)]" VNull] o
  have b: "loaders_at ?ls ([] @ [''server'']) ! 2 = ValuesLoader (ObjectOf [])" by simp
  from a b show ?thesis by (rule conjI)
qed

text \<open>
  C7. \<^verbatim>\<open>safeLoad\<close> always returns, and what it returns is the validation result of the
  merged tree; \<^verbatim>\<open>load\<close> does the same resolution and validation, returns the data
  exactly when \<^verbatim>\<open>safeLoad\<close> returns a success with that data, and throws an error
  exactly when \<^verbatim>\<open>safeLoad\<close> returns the failure with that error.
\<close>

theorem load_agrees_with_safeLoad:
  "(\<exists>result. safeLoad M this loaders = Returns result) \<and>
   safeLoad M this loaders =
     Returns (conf_safeParse this (VObject (loadValue M (conf_shape this) loaders))) \<and>
   (load M this loaders = Returns d \<longleftrightarrow> safeLoad M this loaders = Returns (Success d)) \<and>
   (load M this loaders = Throws err \<longleftrightarrow> safeLoad M this loaders = Returns (Failure err))"
  by (auto simp: load_def safeLoad_def Let_def split: SafeParseResult.splits)

text \<open>
  C8. A resolution call leaves the global state as it was, so a second call with the same
  shape and sources yields the same merged tree. More generally resolution is a function
  of the shape, the sources and the annotations of the shape's nodes, and no call of the
  library changes these: after any sequence of calls (bindings, combinators, other
  resolutions), resolving a shape whose objects already existed against the same sources
  yields the same merged tree as before.
\<close>

theorem resolution_repeatable:
  "api_step lib w (LoadValue_call shape loaders) = w \<and>
   loadValue (envMetadata (api_step lib w (LoadValue_call shape loaders))) shape loaders =
     loadValue (envMetadata w) shape loaders \<and>
   ((\<forall>f \<in> set shape. \<forall>i \<in> idents (snd f). i < next_id w) \<longrightarrow>
      loadValue (envMetadata (foldl (api_step lib) w calls)) shape loaders =
        loadValue (envMetadata w) shape loaders)"
proof (intro conjI impI)
  show "api_step lib w (LoadValue_call shape loaders) = w" by simp
  show "loadValue (envMetadata (api_step lib w (LoadValue_call shape loaders))) shape loaders =
          loadValue (envMetadata w) shape loaders" by simp
next
  assume allocated: "\<forall>f \<in> set shape. \<forall>i \<in> idents (snd f). i < next_id w"
  have "\<forall>f \<in> set shape. \<forall>i \<in> idents (snd f).
          envMetadata (foldl (api_step lib) w calls) i = envMetadata w i"
    using allocated api_run_frame [of w lib calls] by blast
  then show "loadValue (envMetadata (foldl (api_step lib) w calls)) shape loaders =
               loadValue (envMetadata w) shape loaders"
    unfolding loadValue_def by (rule loadValue_loop_agree)
qed

theorem resolution_repeatable_witness:
  "loadValue (envMetadata (foldl (api_step zod) host_world
                [Env_call ''PORT'' BNumber,
                 Method_call (fst (env world0 ''H'' BString)) Optional,
                 LoadValue_call server_shape [EnvLoader [''H'' \<mapsto> ''x'']]]))
             server_shape [EnvLoader [''H'' \<mapsto> ''0.0.0.0'']]
     = loadValue (envMetadata host_world) server_shape [EnvLoader [''H'' \<mapsto> ''0.0.0.0'']]"
proof -
  have h: "\<forall>f \<in> set server_shape. \<forall>i \<in> idents (snd f). i < next_id host_world"
    by (simp add: server_shape_def host_world_def env_def wrap_def world0_def)
  from resolution_repeatable [of zod host_world server_shape] h show ?thesis by blast
qed

text \<open>
  C10. In every merged tree produced by resolution, every field whose schema is a nested
  shape is present and holds an object (possibly empty), whatever the sources, and so on
  inside the nested objects.
\<close>

theorem groups_always_present:
  assumes "wf_shape shape"
  shows "groups_present shape (loadValue M shape loaders)"
  unfolding loadValue_def using assms by (rule groups_present_loop)

theorem groups_always_present_witness:
  "wf_shape server_shape \<and>
   groups_present server_shape (loadValue (envMetadata host_world) server_shape [EnvLoader Map.empty]) \<and>
   loadValue (envMetadata host_world) server_shape [EnvLoader Map.empty] = [(''server'', VObject [])]"
proof -
  have h: "wf_shape server_shape" by code_simp
  have v: "loadValue (envMetadata host_world) server_shape [EnvLoader Map.empty]
             = [(''server'', VObject [])]"
    by code_simp
  from h groups_always_present [OF h, of "envMetadata host_world" "[EnvLoader Map.empty]"] v
  show ?thesis by blast
qed

end
